theory Spec2Isabelle
  imports Complex_Main "HOL-Library.Word" "HOL-Library.AList"
begin

unbundle bit_operations_syntax

section \<open>Strings\<close>

text \<open>
  A JavaScript string is a sequence of UTF-16 code units. \<open>length\<close>, \<open>slice\<close>,
  \<open>charCodeAt\<close>, \<open>includes\<close> (here \<open>includesStr\<close>) and \<open>split\<close> all work on code
  units, so a text is a list of 16-bit words. \<open>js\<close> embeds an ASCII literal.
\<close>

type_synonym jschar = "16 word"
type_synonym jsstring = "jschar list"

definition js :: "string \<Rightarrow> jsstring" where
  "js s = map of_char s"

definition NL :: jschar where
  "NL = 10"

text \<open>
  White space and line terminators, as \<open>String.prototype.trim\<close> strips them: TAB, LF, VT,
  FF, CR, SP, NBSP, the Unicode space separators, LS, PS and the byte order mark.
\<close>

definition isWhiteSpace :: "jschar \<Rightarrow> bool" where
  "isWhiteSpace c =
     (c = 9 \<or> c = 10 \<or> c = 11 \<or> c = 12 \<or> c = 13 \<or> c = 32 \<or> c = 160 \<or> c = 5760
      \<or> (8192 \<le> c \<and> c \<le> 8202) \<or> c = 8232 \<or> c = 8233 \<or> c = 8239 \<or> c = 8287
      \<or> c = 12288 \<or> c = 65279)"

definition trim :: "jsstring \<Rightarrow> jsstring" where
  "trim s = rev (dropWhile isWhiteSpace (rev (dropWhile isWhiteSpace s)))"

fun startsWith :: "jsstring \<Rightarrow> jsstring \<Rightarrow> bool" where
  "startsWith s [] = True"
| "startsWith [] (p # ps) = False"
| "startsWith (c # cs) (p # ps) = (c = p \<and> startsWith cs ps)"

fun includesStr :: "jsstring \<Rightarrow> jsstring \<Rightarrow> bool" where
  "includesStr [] p = (p = [])"
| "includesStr (c # cs) p = (startsWith (c # cs) p \<or> includesStr cs p)"

text \<open>
  \<open>toLowerCase\<close>: the letters A to Z go to a to z. Code units outside ASCII are left as
  they are here. JavaScript maps the capital letters among them to letters outside ASCII,
  which no pattern of this program contains; the two exceptions are U+0130 and U+212A,
  whose lower case contains the ASCII letters i and k, and texts with these two code units
  are outside what this function models.
\<close>

definition lowerChar :: "jschar \<Rightarrow> jschar" where
  "lowerChar c = (if 65 \<le> c \<and> c \<le> 90 then c + 32 else c)"

definition toLowerCase :: "jsstring \<Rightarrow> jsstring" where
  "toLowerCase s = map lowerChar s"

text \<open>A value is truthy when it is present and not the empty string.\<close>

definition truthy :: "jsstring option \<Rightarrow> bool" where
  "truthy v = (case v of None \<Rightarrow> False | Some s \<Rightarrow> s \<noteq> [])"

section \<open>Identity generator (worker, \<open>generateId\<close>)\<close>

text \<open>
  \<open>Array.from(text)\<close> iterates by code point: a high surrogate followed by a low surrogate
  is one element, and \<open>c.charCodeAt(0)\<close> reads the first code unit of the element.
\<close>

definition isHighSurrogate :: "jschar \<Rightarrow> bool" where
  "isHighSurrogate c = (55296 \<le> c \<and> c \<le> 56319)"

definition isLowSurrogate :: "jschar \<Rightarrow> bool" where
  "isLowSurrogate c = (56320 \<le> c \<and> c \<le> 57343)"

fun firstUnits :: "jsstring \<Rightarrow> jschar list" where
  "firstUnits [] = []"
| "firstUnits [c] = [c]"
| "firstUnits (c # d # cs) =
     (if isHighSurrogate c \<and> isLowSurrogate d then c # firstUnits cs
      else c # firstUnits (d # cs))"

text \<open>
  One step of the reduction, \<open>((h << 5) - h + code) | 0\<close>: every intermediate value is an
  exact double and \<open>| 0\<close> takes the result modulo \<open>2^32\<close>, so the step is 32-bit word
  arithmetic.
\<close>

definition hashStep :: "32 word \<Rightarrow> jschar \<Rightarrow> 32 word" where
  "hashStep h c = push_bit 5 h - h + ucast c"

definition hashText :: "jsstring \<Rightarrow> 32 word" where
  "hashText text = foldl hashStep 0 (firstUnits text)"

definition hexDigit :: "nat \<Rightarrow> jschar" where
  "hexDigit d = (if d < 10 then of_nat (48 + d) else of_nat (87 + d))"

fun hexNat :: "nat \<Rightarrow> jsstring" where
  "hexNat n = (if n < 16 then [hexDigit n] else hexNat (n div 16) @ [hexDigit (n mod 16)])"

declare hexNat.simps [simp del]

text \<open>\<open>toString(16)\<close> of the signed 32-bit value: a minus sign, then the magnitude.\<close>

definition toString16 :: "32 word \<Rightarrow> jsstring" where
  "toString16 h =
     (if sint h < 0 then js ''-'' @ hexNat (nat (- sint h)) else hexNat (nat (sint h)))"

definition generateId :: "jsstring \<Rightarrow> jsstring \<Rightarrow> jsstring \<Rightarrow> jsstring" where
  "generateId agent source text =
     agent @ js '':'' @ source @ js '':'' @ toString16 (hashText text)"

section \<open>Chunker (worker, \<open>chunkText\<close>)\<close>

text \<open>
  \<open>text.split(/\n\n+/)\<close>: every maximal run of two or more line feeds is one separator;
  a single line feed stays inside its paragraph. The empty text gives one empty paragraph.
\<close>

function paragraphs :: "jsstring \<Rightarrow> jsstring list" where
  "paragraphs [] = [[]]"
| "paragraphs (c # cs) =
     (if c = NL \<and> (case cs of [] \<Rightarrow> False | d # _ \<Rightarrow> d = NL)
      then [] # paragraphs (dropWhile (\<lambda>x. x = NL) cs)
      else (case paragraphs cs of [] \<Rightarrow> [[c]] | p # ps \<Rightarrow> (c # p) # ps))"
  by pat_completeness auto
termination
  by (relation "measure length") (auto simp: length_dropWhile_le less_Suc_eq_le)

text \<open>
  The loop over the paragraphs, with \<open>currentChunk\<close> as the accumulator; the chunks pushed
  are returned in the order of the pushes. The last equation is the code after the loop.
\<close>

fun pack :: "nat \<Rightarrow> jsstring \<Rightarrow> jsstring list \<Rightarrow> jsstring list" where
  "pack maxChunkSize currentChunk [] =
     (if trim currentChunk \<noteq> [] then [trim currentChunk] else [])"
| "pack maxChunkSize currentChunk (para # rest) =
     (if length currentChunk + length para > maxChunkSize \<and> currentChunk \<noteq> []
      then trim currentChunk # pack maxChunkSize para rest
      else pack maxChunkSize
             (currentChunk @ (if currentChunk \<noteq> [] then [NL, NL] else []) @ para) rest)"

definition chunkText :: "jsstring \<Rightarrow> nat \<Rightarrow> jsstring list" where
  "chunkText text maxChunkSize = pack maxChunkSize [] (paragraphs text)"

definition defaultMaxChunkSize :: nat where
  "defaultMaxChunkSize = 500"

section \<open>Capture classifier (plugin, \<open>detectCategory\<close>)\<close>

datatype MemoryType = Decision | Correction | Learning | Preference | Context | UserProfile

definition typeName :: "MemoryType \<Rightarrow> jsstring" where
  "typeName t =
     (case t of Decision \<Rightarrow> js ''decision'' | Correction \<Rightarrow> js ''correction''
      | Learning \<Rightarrow> js ''learning'' | Preference \<Rightarrow> js ''preference''
      | Context \<Rightarrow> js ''context'' | UserProfile \<Rightarrow> js ''user_profile'')"

text \<open>
  \<open>/a|b|c/i.test(s)\<close> for literal alternatives in lower case: some alternative occurs in
  \<open>s\<close>, the ASCII letters of \<open>s\<close> compared without case.
\<close>

definition regexTestI :: "string list \<Rightarrow> jsstring \<Rightarrow> bool" where
  "regexTestI alts s = list_ex (\<lambda>p. includesStr (map lowerChar s) (js p)) alts"

definition correctionWords :: "string list" where
  "correctionWords = [''actually'', ''no,'', ''that'' @ [CHR 0x27] @ ''s wrong'', ''correction'']"

definition preferenceWords :: "string list" where
  "preferenceWords = [''prefer'', ''like'', ''love'', ''hate'', ''want'']"

definition decisionWords :: "string list" where
  "decisionWords = [''decided'', ''decision'', ''will use'']"

definition learningWords :: "string list" where
  "learningWords = [''learned'', ''realized'', ''discovered'']"

definition detectCategory :: "jsstring \<Rightarrow> MemoryType" where
  "detectCategory text =
     (let lower = toLowerCase text in
      if regexTestI correctionWords lower then Correction
      else if regexTestI preferenceWords lower then Preference
      else if regexTestI decisionWords lower then Decision
      else if regexTestI learningWords lower then Learning
      else Context)"

section \<open>Worker: data model\<close>

text \<open>
  The fields of the worker's interfaces, with a prefix per interface. \<open>m_type\<close> is declared
  as the union of six literals; at run time it is the string the handler put there, so the
  model keeps a string and \<open>isMemoryType\<close> says whether it is one of the six.
\<close>

record MemoryMetadata =
  m_agent :: jsstring
  m_type :: jsstring
  m_source_file :: jsstring
  m_timestamp :: jsstring
  m_chunk_index :: int
  m_raw_text :: jsstring

definition isMemoryType :: "jsstring \<Rightarrow> bool" where
  "isMemoryType s = (s \<in> typeName ` {Decision, Correction, Learning, Preference, Context, UserProfile})"

record VectorizeVector =
  v_id :: jsstring
  v_values :: "real list"
  v_metadata :: MemoryMetadata

record VectorizeMatch =
  match_id :: jsstring
  match_score :: real
  match_metadata :: MemoryMetadata

record QueryRequest =
  q_query :: "jsstring option"
  q_agent :: "jsstring option"
  q_type :: "jsstring option"
  q_topK :: "real option"
  q_minScore :: "real option"

record IndexRequest =
  i_agent :: "jsstring option"
  i_text :: "jsstring option"
  i_type :: "jsstring option"
  i_source_file :: "jsstring option"
  i_chunk_index :: "int option"

record CaptureRequest =
  c_agent :: "jsstring option"
  c_content :: "jsstring option"
  c_classification :: "jsstring option"

record IndexFileRequest =
  f_agent :: "jsstring option"
  f_file :: "jsstring option"

text \<open>The metadata filter: an equality on \<open>agent\<close> and one on \<open>type\<close>, each optional.\<close>

record MetadataFilter =
  filter_agent :: "jsstring option"
  filter_type :: "jsstring option"

record QueryOptions =
  topK :: real
  filter_opt :: "MetadataFilter option"

text \<open>
  The bindings of the worker. Each external call either throws (\<open>Inl\<close> of the message)
  or returns. The vector store has a state of type \<open>'st\<close>, which an upsert changes. The
  clock gives the timestamp of the record of chunk \<open>i\<close>.
\<close>

record 'st Env =
  AI_run :: "jsstring \<Rightarrow> jsstring + real list"
  VECTORIZE_query :: "real list \<Rightarrow> QueryOptions \<Rightarrow> 'st \<Rightarrow> jsstring + VectorizeMatch list"
  VECTORIZE_upsert :: "VectorizeVector list \<Rightarrow> 'st \<Rightarrow> jsstring + 'st"
  R2_DEV :: "jsstring \<Rightarrow> jsstring + jsstring option"
  R2_FLO :: "jsstring \<Rightarrow> jsstring + jsstring option"
  Date_now :: "nat \<Rightarrow> jsstring"

datatype Response =
    ErrorResponse nat jsstring
  | InternalError jsstring
  | QueryResponse jsstring nat "VectorizeMatch list"
  | IndexResponse nat "jsstring list"
  | NotCaptured
  | Captured jsstring jsstring
  | IndexFileResponse jsstring nat nat

definition strOf :: "jsstring option \<Rightarrow> jsstring" where
  "strOf v = (case v of None \<Rightarrow> [] | Some s \<Rightarrow> s)"

text \<open>\<open>a || d\<close> on an optional string and on an optional number.\<close>

definition orStr :: "jsstring option \<Rightarrow> jsstring \<Rightarrow> jsstring" where
  "orStr v d = (if truthy v then strOf v else d)"

definition orNum :: "real option \<Rightarrow> real \<Rightarrow> real" where
  "orNum v d = (case v of None \<Rightarrow> d | Some x \<Rightarrow> if x = 0 then d else x)"

section \<open>Worker: \<open>POST /query\<close>\<close>

definition queryFilter :: "QueryRequest \<Rightarrow> MetadataFilter option" where
  "queryFilter body =
     (let fa = (if truthy (q_agent body) then q_agent body else None);
          ft = (if truthy (q_type body) then q_type body else None)
      in if fa = None \<and> ft = None then None
         else Some \<lparr>filter_agent = fa, filter_type = ft\<rparr>)"

definition queryOptions :: "QueryRequest \<Rightarrow> QueryOptions" where
  "queryOptions body = \<lparr>topK = orNum (q_topK body) 5, filter_opt = queryFilter body\<rparr>"

definition queryMinScore :: "QueryRequest \<Rightarrow> real" where
  "queryMinScore body = orNum (q_minScore body) 0.7"

definition queryHandler :: "'st Env \<Rightarrow> QueryRequest \<Rightarrow> 'st \<Rightarrow> Response" where
  "queryHandler env body st =
     (if \<not> truthy (q_query body) then ErrorResponse 400 (js ''query is required'')
      else case AI_run env (strOf (q_query body)) of
        Inl e \<Rightarrow> InternalError e
      | Inr embedding \<Rightarrow>
          (case VECTORIZE_query env embedding (queryOptions body) st of
             Inl e \<Rightarrow> InternalError e
           | Inr matches \<Rightarrow>
               (let minScore = queryMinScore body;
                    filtered = filter (\<lambda>m. match_score m \<ge> minScore) matches
                in QueryResponse (strOf (q_query body)) (length filtered) filtered)))"

section \<open>Worker: \<open>POST /index\<close>\<close>

text \<open>
  The loop that embeds the chunks and assembles the vectors, from chunk \<open>i\<close> on. The
  response of the handler is modelled without its \<open>result\<close> field, the store's own answer
  to the upsert.
\<close>

fun indexVectors ::
  "'st Env \<Rightarrow> IndexRequest \<Rightarrow> nat \<Rightarrow> jsstring list \<Rightarrow> jsstring + VectorizeVector list" where
  "indexVectors env body i [] = Inr []"
| "indexVectors env body i (chunk # chunks) =
     (case AI_run env chunk of
        Inl e \<Rightarrow> Inl e
      | Inr embedding \<Rightarrow>
          (case indexVectors env body (Suc i) chunks of
             Inl e \<Rightarrow> Inl e
           | Inr vectors \<Rightarrow>
               Inr (\<lparr>v_id = generateId (strOf (i_agent body))
                               (orStr (i_source_file body) (js ''manual'')) chunk,
                     v_values = embedding,
                     v_metadata =
                       \<lparr>m_agent = strOf (i_agent body),
                        m_type = orStr (i_type body) (js ''context''),
                        m_source_file = orStr (i_source_file body) (js ''manual''),
                        m_timestamp = Date_now env i,
                        m_chunk_index =
                          (case i_chunk_index body of None \<Rightarrow> int i | Some k \<Rightarrow> k),
                        m_raw_text = chunk\<rparr>\<rparr> # vectors)))"

definition indexHandler :: "'st Env \<Rightarrow> IndexRequest \<Rightarrow> 'st \<Rightarrow> Response \<times> 'st" where
  "indexHandler env body st =
     (if \<not> truthy (i_agent body) \<or> \<not> truthy (i_text body)
      then (ErrorResponse 400 (js ''agent and text are required''), st)
      else case indexVectors env body 0 (chunkText (strOf (i_text body)) defaultMaxChunkSize) of
        Inl e \<Rightarrow> (InternalError e, st)
      | Inr vectors \<Rightarrow>
          (case VECTORIZE_upsert env vectors st of
             Inl e \<Rightarrow> (InternalError e, st)
           | Inr st' \<Rightarrow> (IndexResponse (length vectors) (map v_id vectors), st')))"

section \<open>Worker: \<open>POST /capture\<close>\<close>

text \<open>The classification of a turn: the caller's, or else the heuristics on the content.\<close>

definition captureMemoryType :: "jsstring option \<Rightarrow> jsstring \<Rightarrow> jsstring" where
  "captureMemoryType classification content =
     (let contentLower = toLowerCase content in
      if truthy classification then strOf classification
      else if includesStr contentLower (js ''decided'') \<or> includesStr contentLower (js ''decision'')
        then js ''decision''
      else if includesStr contentLower (js ''actually'') \<or> includesStr contentLower (js ''no,'')
              \<or> includesStr contentLower (js (''that'' @ [CHR 0x27] @ ''s wrong''))
        then js ''correction''
      else if includesStr contentLower (js ''learned'') \<or> includesStr contentLower (js ''realized'')
        then js ''learning''
      else if includesStr contentLower (js ''prefer'') \<or> includesStr contentLower (js ''like'')
              \<or> includesStr contentLower (js ''want'')
        then js ''preference''
      else js ''context'')"

definition captureVector :: "'st Env \<Rightarrow> CaptureRequest \<Rightarrow> real list \<Rightarrow> VectorizeVector" where
  "captureVector env body embedding =
     \<lparr>v_id = generateId (strOf (c_agent body)) (js ''capture'') (strOf (c_content body)),
      v_values = embedding,
      v_metadata =
        \<lparr>m_agent = strOf (c_agent body),
         m_type = captureMemoryType (c_classification body) (strOf (c_content body)),
         m_source_file = js ''auto-capture'',
         m_timestamp = Date_now env 0,
         m_chunk_index = 0,
         m_raw_text = take 1000 (strOf (c_content body))\<rparr>\<rparr>"

definition captureHandler :: "'st Env \<Rightarrow> CaptureRequest \<Rightarrow> 'st \<Rightarrow> Response \<times> 'st" where
  "captureHandler env body st =
     (if \<not> truthy (c_agent body) \<or> \<not> truthy (c_content body)
      then (ErrorResponse 400 (js ''agent and content are required''), st)
      else if captureMemoryType (c_classification body) (strOf (c_content body)) = js ''context''
      then (NotCaptured, st)
      else case AI_run env (strOf (c_content body)) of
        Inl e \<Rightarrow> (InternalError e, st)
      | Inr embedding \<Rightarrow>
          (case VECTORIZE_upsert env [captureVector env body embedding] st of
             Inl e \<Rightarrow> (InternalError e, st)
           | Inr st' \<Rightarrow>
               (Captured (captureMemoryType (c_classification body) (strOf (c_content body)))
                  (v_id (captureVector env body embedding)), st')))"

section \<open>Worker: \<open>POST /index-file\<close>\<close>

fun fileVectors ::
  "'st Env \<Rightarrow> IndexFileRequest \<Rightarrow> nat \<Rightarrow> jsstring list \<Rightarrow> jsstring + VectorizeVector list" where
  "fileVectors env body i [] = Inr []"
| "fileVectors env body i (chunk # chunks) =
     (case AI_run env chunk of
        Inl e \<Rightarrow> Inl e
      | Inr embedding \<Rightarrow>
          (case fileVectors env body (Suc i) chunks of
             Inl e \<Rightarrow> Inl e
           | Inr vectors \<Rightarrow>
               Inr (\<lparr>v_id = generateId (strOf (f_agent body)) (strOf (f_file body)) chunk,
                     v_values = embedding,
                     v_metadata =
                       \<lparr>m_agent = strOf (f_agent body),
                        m_type = js ''context'',
                        m_source_file = strOf (f_file body),
                        m_timestamp = Date_now env i,
                        m_chunk_index = int i,
                        m_raw_text = chunk\<rparr>\<rparr> # vectors)))"

text \<open>
  The batch loop, \<open>for (let i = 0; i < vectors.length; i += 100)\<close>: a batch that throws
  ends the request, the batches before it stay written.
\<close>

function upsertBatches ::
  "'st Env \<Rightarrow> VectorizeVector list \<Rightarrow> nat \<Rightarrow> nat \<Rightarrow> 'st \<Rightarrow> (jsstring + nat) \<times> 'st" where
  "upsertBatches env vectors i totalInserted st =
     (if i < length vectors
      then (let batch = take 100 (drop i vectors) in
            case VECTORIZE_upsert env batch st of
              Inl e \<Rightarrow> (Inl e, st)
            | Inr st' \<Rightarrow> upsertBatches env vectors (i + 100) (totalInserted + length batch) st')
      else (Inr totalInserted, st))"
  by pat_completeness auto
termination
  by (relation "measure (\<lambda>(env, vectors, i, totalInserted, st). length vectors - i)") auto

declare upsertBatches.simps [simp del]

definition indexFileHandler ::
  "'st Env \<Rightarrow> IndexFileRequest \<Rightarrow> 'st \<Rightarrow> Response \<times> 'st" where
  "indexFileHandler env body st =
     (if \<not> truthy (f_agent body) \<or> \<not> truthy (f_file body)
      then (ErrorResponse 400 (js ''agent and file are required''), st)
      else if strOf (f_agent body) \<noteq> js ''dev'' \<and> strOf (f_agent body) \<noteq> js ''flo''
      then (ErrorResponse 400 (js ''Unknown agent: '' @ strOf (f_agent body)), st)
      else case (if strOf (f_agent body) = js ''dev'' then R2_DEV env else R2_FLO env)
                  (strOf (f_file body)) of
        Inl e \<Rightarrow> (InternalError e, st)
      | Inr None \<Rightarrow> (ErrorResponse 404 (js ''File not found: '' @ strOf (f_file body)), st)
      | Inr (Some text) \<Rightarrow>
          (case fileVectors env body 0 (chunkText text defaultMaxChunkSize) of
             Inl e \<Rightarrow> (InternalError e, st)
           | Inr vectors \<Rightarrow>
               (case upsertBatches env vectors 0 0 st of
                  (Inl e, st') \<Rightarrow> (InternalError e, st')
                | (Inr totalInserted, st') \<Rightarrow>
                    (IndexFileResponse (strOf (f_file body)) (length vectors) totalInserted,
                     st'))))"

section \<open>The vector store\<close>

text \<open>
  Modelled from the spec: the vector store is an external service, of which the spec says
  that it persists (id, vector, metadata) triples and that an upsert overwrites the record
  under the same id. Here it is the list of its records, keyed by id, together with the
  log of the upsert calls it received, each with its batch.
\<close>

record Store =
  records :: "(jsstring \<times> VectorizeVector) list"
  upsertCalls :: "VectorizeVector list list"

definition storeUpsert :: "VectorizeVector list \<Rightarrow> Store \<Rightarrow> jsstring + Store" where
  "storeUpsert batch st =
     Inr \<lparr>records = foldl (\<lambda>al v. AList.update (v_id v) v al) (records st) batch,
          upsertCalls = upsertCalls st @ [batch]\<rparr>"

definition emptyStore :: Store where
  "emptyStore = \<lparr>records = [], upsertCalls = []\<rparr>"

text \<open>
  A test environment on that store: every text embeds to the same vector, a query finds
  nothing, the buckets are empty and the clock stands still.
\<close>

definition testEnv :: "Store Env" where
  "testEnv =
     \<lparr>AI_run = (\<lambda>text. Inr [1]),
      VECTORIZE_query = (\<lambda>v opts st. Inr []),
      VECTORIZE_upsert = storeUpsert,
      R2_DEV = (\<lambda>file. Inr None),
      R2_FLO = (\<lambda>file. Inr None),
      Date_now = (\<lambda>i. js ''2026-01-01T00:00:00.000Z'')\<rparr>"

section \<open>Auxiliary notions and test data\<close>


definition sampleMetadata :: MemoryMetadata where
  "sampleMetadata =
     \<lparr>m_agent = js ''dev'', m_type = js ''context'', m_source_file = js ''manual'',
      m_timestamp = js ''2026-01-01T00:00:00.000Z'', m_chunk_index = 0, m_raw_text = js ''tea''\<rparr>"

definition hit :: "real \<Rightarrow> VectorizeMatch" where
  "hit s = \<lparr>match_id = js ''dev:manual:0'', match_score = s, match_metadata = sampleMetadata\<rparr>"

text \<open>The test environment with a store that answers every query with \<open>ms\<close>.\<close>

definition rankedEnv :: "VectorizeMatch list \<Rightarrow> Store Env" where
  "rankedEnv ms = testEnv\<lparr>VECTORIZE_query := (\<lambda>v opts st. Inr ms)\<rparr>"

definition sampleQuery :: "real option \<Rightarrow> real option \<Rightarrow> QueryRequest" where
  "sampleQuery k s =
     \<lparr>q_query = Some (js ''tea''), q_agent = None, q_type = None, q_topK = k, q_minScore = s\<rparr>"

text \<open>
  The test environment with a store that answers with a match, of score -0.2, only when it
  is asked for fewer than 1 match.
\<close>

definition probeEnv :: "Store Env" where
  "probeEnv =
     testEnv\<lparr>VECTORIZE_query :=
       (\<lambda>v opts st. if topK opts < 1 then Inr [hit (- 0.2)] else Inr [])\<rparr>"

text \<open>Paragraphs of \<open>n\<close> letters a, and \<open>k\<close> of them, each followed by a blank line.\<close>

definition letterA :: jschar where "letterA = 97"

definition para :: "nat \<Rightarrow> jsstring" where
  "para n = replicate n letterA"

definition joined :: "nat \<Rightarrow> nat \<Rightarrow> jsstring" where
  "joined k n = concat (replicate k (para n @ [NL, NL]))"

text \<open>Requests of the agent \<open>dev\<close>, and an environment whose bucket holds one file.\<close>

definition sampleIndex :: "jsstring \<Rightarrow> IndexRequest" where
  "sampleIndex text =
     \<lparr>i_agent = Some (js ''dev''), i_text = Some text, i_type = None, i_source_file = None,
      i_chunk_index = None\<rparr>"

definition sampleCapture :: "jsstring \<Rightarrow> jsstring option \<Rightarrow> CaptureRequest" where
  "sampleCapture content classification =
     \<lparr>c_agent = Some (js ''dev''), c_content = Some content, c_classification = classification\<rparr>"

definition sampleFile :: IndexFileRequest where
  "sampleFile = \<lparr>f_agent = Some (js ''dev''), f_file = Some (js ''MEMORY.md'')\<rparr>"

definition fileEnv :: "jsstring \<Rightarrow> Store Env" where
  "fileEnv text = testEnv\<lparr>R2_DEV := (\<lambda>file. Inr (Some text))\<rparr>"

text \<open>What the store holds: the length of each record's raw text, and each record's type.\<close>

definition rawLengths :: "Store \<Rightarrow> nat list" where
  "rawLengths st = map (\<lambda>(k, v). length (m_raw_text (v_metadata v))) (records st)"

definition storedTypes :: "Store \<Rightarrow> jsstring list" where
  "storedTypes st = map (\<lambda>(k, v). m_type (v_metadata v)) (records st)"

section \<open>Retrieval\<close>


lemma sampleQuery_truthy: "truthy (q_query (sampleQuery k s))"
  by (simp add: sampleQuery_def truthy_def js_def)

lemma rankedEnv_run: "AI_run (rankedEnv ms) t = Inr [1]"
  by (simp add: rankedEnv_def testEnv_def)

lemma rankedEnv_query: "VECTORIZE_query (rankedEnv ms) v opts st = Inr ms"
  by (simp add: rankedEnv_def)

lemma probeEnv_run: "AI_run probeEnv t = Inr [1]"
  by (simp add: probeEnv_def testEnv_def)

lemma sampleQuery_text: "strOf (q_query (sampleQuery k s)) = js ''tea''"
  by (simp add: sampleQuery_def strOf_def)

text \<open>
  C3, as the spec states it: \<open>topK\<close> is clamped to at least 1 and \<open>minScore\<close> into [0,1]
  before the store call. The handler has no clamp. A store that answers with a match only
  when it is asked for fewer than 1 match is asked for -3 and answers; the match, of score
  -0.2, passes the filter at \<open>minScore\<close> -0.5. A match of score 1.2 is dropped at
  \<open>minScore\<close> 1.5, and kept at 1.
\<close>

theorem query_not_clamped_counterexample:
  "queryHandler probeEnv (sampleQuery (Some (- 3)) (Some (- 0.5))) emptyStore
     = QueryResponse (js ''tea'') 1 [hit (- 0.2)]
   \<and> queryHandler probeEnv (sampleQuery (Some 1) (Some (- 0.5))) emptyStore
     = QueryResponse (js ''tea'') 0 []
   \<and> queryHandler (rankedEnv [hit 1.2]) (sampleQuery (Some (- 3)) (Some 1.5)) emptyStore
     = QueryResponse (js ''tea'') 0 []
   \<and> queryHandler (rankedEnv [hit 1.2]) (sampleQuery (Some (- 3)) (Some 1)) emptyStore
     = QueryResponse (js ''tea'') 1 [hit 1.2]"
proof -
  have t: "truthy (q_query (sampleQuery k s))" for k s
    by (rule sampleQuery_truthy)
  have 1: "queryHandler probeEnv (sampleQuery (Some (- 3)) (Some (- 0.5))) emptyStore
     = QueryResponse (js ''tea'') 1 [hit (- 0.2)]"
    by (simp add: queryHandler_def t probeEnv_run sampleQuery_text Let_def)
       (simp add: probeEnv_def queryOptions_def queryMinScore_def orNum_def sampleQuery_def hit_def
          strOf_def)
  have 2: "queryHandler probeEnv (sampleQuery (Some 1) (Some (- 0.5))) emptyStore
     = QueryResponse (js ''tea'') 0 []"
    by (simp add: queryHandler_def t probeEnv_run sampleQuery_text Let_def)
       (simp add: probeEnv_def queryOptions_def queryMinScore_def orNum_def sampleQuery_def hit_def
          strOf_def)
  have 3: "queryHandler (rankedEnv [hit 1.2]) (sampleQuery (Some (- 3)) (Some 1.5)) emptyStore
     = QueryResponse (js ''tea'') 0 []"
    by (simp add: queryHandler_def t rankedEnv_run rankedEnv_query sampleQuery_text Let_def)
       (simp add: queryMinScore_def orNum_def sampleQuery_def hit_def strOf_def)
  have 4: "queryHandler (rankedEnv [hit 1.2]) (sampleQuery (Some (- 3)) (Some 1)) emptyStore
     = QueryResponse (js ''tea'') 1 [hit 1.2]"
    by (simp add: queryHandler_def t rankedEnv_run rankedEnv_query sampleQuery_text Let_def)
       (simp add: queryMinScore_def orNum_def sampleQuery_def hit_def strOf_def)
  show ?thesis using 1 2 3 4 by blast
qed

text \<open>
  C3, amended: for every \<open>/query\<close> request, a supplied non-zero \<open>topK\<close> is the \<open>topK\<close>
  of the store call as it is, and a supplied non-zero \<open>minScore\<close> is the threshold of the
  score filter as it is, in range or not; the handler rejects a request (status 400)
  exactly when the query is missing or empty, never because \<open>topK\<close> or \<open>minScore\<close> is out
  of range.
\<close>

theorem query_passes_unclamped:
  "(truthy (q_query body) \<and> AI_run env (strOf (q_query body)) = Inr v
      \<and> q_topK body = Some k \<and> k \<noteq> 0
     \<longrightarrow> queryHandler env body st =
          (case VECTORIZE_query env v \<lparr>topK = k, filter_opt = queryFilter body\<rparr> st of
             Inl e \<Rightarrow> InternalError e
           | Inr ms \<Rightarrow>
               QueryResponse (strOf (q_query body))
                 (length (filter (\<lambda>m. queryMinScore body \<le> match_score m) ms))
                 (filter (\<lambda>m. queryMinScore body \<le> match_score m) ms)))
   \<and> (truthy (q_query body) \<and> AI_run env (strOf (q_query body)) = Inr v
      \<and> VECTORIZE_query env v (queryOptions body) st = Inr ms
      \<and> q_minScore body = Some s \<and> s \<noteq> 0
     \<longrightarrow> queryHandler env body st =
          QueryResponse (strOf (q_query body))
            (length (filter (\<lambda>m. s \<le> match_score m) ms))
            (filter (\<lambda>m. s \<le> match_score m) ms))
   \<and> ((\<exists>code msg. queryHandler env body st = ErrorResponse code msg) \<longleftrightarrow> \<not> truthy (q_query body))"
proof -
  have 1: "queryHandler env body st =
          (case VECTORIZE_query env v \<lparr>topK = k, filter_opt = queryFilter body\<rparr> st of
             Inl e \<Rightarrow> InternalError e
           | Inr ms \<Rightarrow>
               QueryResponse (strOf (q_query body))
                 (length (filter (\<lambda>m. queryMinScore body \<le> match_score m) ms))
                 (filter (\<lambda>m. queryMinScore body \<le> match_score m) ms))"
    if "truthy (q_query body)" "AI_run env (strOf (q_query body)) = Inr v"
      "q_topK body = Some k" "k \<noteq> 0"
  proof -
    have "queryOptions body = \<lparr>topK = k, filter_opt = queryFilter body\<rparr>"
      using that(3,4) by (simp add: queryOptions_def orNum_def)
    then show ?thesis
      using that(1,2) by (simp add: queryHandler_def Let_def split: sum.splits)
  qed
  have 2: "queryHandler env body st =
          QueryResponse (strOf (q_query body))
            (length (filter (\<lambda>m. s \<le> match_score m) ms))
            (filter (\<lambda>m. s \<le> match_score m) ms)"
    if "truthy (q_query body)" "AI_run env (strOf (q_query body)) = Inr v"
      "VECTORIZE_query env v (queryOptions body) st = Inr ms"
      "q_minScore body = Some s" "s \<noteq> 0"
  proof -
    have "queryMinScore body = s"
      using that(4,5) by (simp add: queryMinScore_def orNum_def)
    then show ?thesis
      using that(1,2,3) by (simp add: queryHandler_def Let_def)
  qed
  have 3: "(\<exists>code msg. queryHandler env body st = ErrorResponse code msg) \<longleftrightarrow> \<not> truthy (q_query body)"
    by (auto simp: queryHandler_def Let_def split: sum.splits)
  show ?thesis using 1 2 3 by blast
qed

theorem query_passes_unclamped_witness:
  "queryHandler probeEnv (sampleQuery (Some (- 3)) (Some (- 0.5))) emptyStore
     = QueryResponse (js ''tea'') 1 [hit (- 0.2)]
   \<and> queryHandler (rankedEnv [hit 2, hit 1.2]) (sampleQuery (Some (- 3)) (Some 1.5)) emptyStore
     = QueryResponse (js ''tea'') 1 [hit 2]
   \<and> (\<nexists>code msg. queryHandler probeEnv (sampleQuery (Some (- 3)) (Some (- 0.5))) emptyStore
         = ErrorResponse code msg)"
proof -
  let ?b = "sampleQuery (Some (- 3)) (Some (- 0.5))"
  let ?c = "sampleQuery (Some (- 3)) (Some 1.5)"
  note a = query_passes_unclamped [of ?b probeEnv "[1]" "- 3" emptyStore "[hit (- 0.2)]" "- 0.5"]
  note b = query_passes_unclamped [of ?c "rankedEnv [hit 2, hit 1.2]" "[1]" "- 3" emptyStore
      "[hit 2, hit 1.2]" "1.5"]
  have k: "q_topK ?b = Some (- 3)" "q_minScore ?b = Some (- 0.5)" "q_minScore ?c = Some 1.5"
    "queryMinScore ?b = - 0.5"
    by (simp_all add: sampleQuery_def queryMinScore_def orNum_def)
  have p: "VECTORIZE_query probeEnv [1] \<lparr>topK = - 3, filter_opt = queryFilter ?b\<rparr> emptyStore
             = Inr [hit (- 0.2)]"
    by (simp add: probeEnv_def)
  have 1: "queryHandler probeEnv ?b emptyStore = QueryResponse (js ''tea'') 1 [hit (- 0.2)]"
    using a sampleQuery_truthy [of "Some (- 3)" "Some (- 0.5)"] probeEnv_run [of "js ''tea''"] k p
    by (simp add: sampleQuery_text hit_def)
  have 2: "queryHandler (rankedEnv [hit 2, hit 1.2]) ?c emptyStore = QueryResponse (js ''tea'') 1 [hit 2]"
    using b sampleQuery_truthy [of "Some (- 3)" "Some 1.5"] rankedEnv_run [of "[hit 2, hit 1.2]" "js ''tea''"]
      rankedEnv_query [of "[hit 2, hit 1.2]" "[1]" "queryOptions ?c" emptyStore] k
    by (simp add: sampleQuery_text hit_def)
  have 3: "\<nexists>code msg. queryHandler probeEnv ?b emptyStore = ErrorResponse code msg"
    using a sampleQuery_truthy [of "Some (- 3)" "Some (- 0.5)"] by blast
  show ?thesis using 1 2 3 by blast
qed






section \<open>Chunker\<close>

lemma paragraphs_nonempty: "paragraphs s \<noteq> []"
  by (induction s rule: paragraphs.induct) (auto split: list.splits)

lemma paragraphs_no_NL: "NL \<notin> set s \<Longrightarrow> paragraphs s = [s]"
  by (induction s) auto

lemma paragraphs_sep:
  assumes "NL \<notin> set p" and "rest = [] \<or> hd rest \<noteq> NL"
  shows "paragraphs (p @ NL # NL # rest) = p # paragraphs rest"
  using assms
proof (induction p)
  case Nil
  have "dropWhile (\<lambda>x. x = NL) rest = rest"
    using Nil(2) by (cases rest) auto
  then show ?case by simp
next
  case (Cons c p)
  then have "c \<noteq> NL" by auto
  with Cons show ?case by simp
qed

lemma trim_Nil: "trim [] = []"
  by (simp add: trim_def)

lemma trim_id:
  assumes "s \<noteq> []" and "\<not> isWhiteSpace (hd s)" and "\<not> isWhiteSpace (last s)"
  shows "trim s = s"
proof -
  have a: "dropWhile isWhiteSpace s = s"
    using assms(1,2) by (cases s) auto
  have "rev s = rev (butlast s @ [last s])"
    using assms(1) by simp
  then have "rev s = last s # rev (butlast s)"
    by simp
  then have "dropWhile isWhiteSpace (rev s) = rev s"
    using assms(3) by (metis dropWhile.simps(2))
  then show ?thesis by (simp add: trim_def a)
qed

lemma length_trim_le: "length (trim s) \<le> length s"
proof -
  have "length (dropWhile isWhiteSpace (rev (dropWhile isWhiteSpace s)))
          \<le> length (rev (dropWhile isWhiteSpace s))"
    by (rule length_dropWhile_le)
  then have "length (trim s) \<le> length (dropWhile isWhiteSpace s)"
    by (simp add: trim_def)
  also have "\<dots> \<le> length s"
    by (rule length_dropWhile_le)
  finally show ?thesis .
qed

lemma letterA_facts: "letterA \<noteq> NL" "NL \<noteq> letterA" "\<not> isWhiteSpace letterA"
  by (simp_all add: letterA_def NL_def isWhiteSpace_def)

lemma trim_letters: "0 < n \<Longrightarrow> trim (replicate n letterA) = replicate n letterA"
  by (rule trim_id) (auto simp: letterA_facts hd_replicate last_replicate)

lemma chunkText_letters:
  "0 < n \<Longrightarrow> chunkText (replicate n letterA) m = [replicate n letterA]"
  by (simp add: chunkText_def paragraphs_no_NL letterA_facts trim_letters)

lemma para_facts:
  "NL \<notin> set (para n)" "length (para n) = n" "0 < n \<Longrightarrow> para n \<noteq> []"
  "0 < n \<Longrightarrow> hd (para n) = letterA" "0 < n \<Longrightarrow> trim (para n) = para n"
  by (auto simp: para_def letterA_facts trim_letters)

lemma paragraphs_joined: "0 < n \<Longrightarrow> paragraphs (joined k n) = replicate k (para n) @ [[]]"
proof (induction k)
  case 0
  then show ?case by (simp add: joined_def)
next
  case (Suc k)
  have "joined k n = [] \<or> hd (joined k n) \<noteq> NL"
  proof (cases k)
    case 0
    then show ?thesis by (simp add: joined_def)
  next
    case (Suc j)
    then have "hd (joined k n) = letterA"
      using Suc.prems by (simp add: joined_def para_facts)
    then show ?thesis by (simp add: letterA_facts)
  qed
  then have "paragraphs (para n @ NL # NL # joined k n) = para n # paragraphs (joined k n)"
    by (rule paragraphs_sep [OF para_facts(1)])
  then show ?case using Suc by (simp add: joined_def)
qed

lemma trim_para_sep: "0 < n \<Longrightarrow> trim (para n @ [NL, NL]) = para n"
proof -
  assume n: "0 < n"
  have w: "isWhiteSpace NL" by (simp add: isWhiteSpace_def NL_def)
  have a: "dropWhile isWhiteSpace (para n @ [NL, NL]) = para n @ [NL, NL]"
    using n by (cases n) (auto simp: para_def letterA_facts)
  have b: "dropWhile isWhiteSpace (rev (para n)) = rev (para n)"
    by (simp add: para_def letterA_facts dropWhile_replicate)
  show ?thesis
    by (simp add: trim_def a w b)
qed

lemma pack_oversize:
  assumes "0 < n" and "m < 2 * n"
  shows "pack m (para n) (replicate k (para n) @ [[]]) = replicate (Suc k) (para n)"
proof (induction k)
  case 0
  show ?case using assms by (simp add: para_facts trim_para_sep trim_Nil)
next
  case (Suc k)
  show ?case using assms Suc by (simp add: para_facts)
qed

lemma chunkText_joined:
  assumes "0 < n" and "m < 2 * n"
  shows "chunkText (joined (Suc k) n) m = replicate (Suc k) (para n)"
  using assms by (simp add: chunkText_def paragraphs_joined pack_oversize)

lemma chunkText_two_paragraphs:
  assumes "0 < n" and "2 * n \<le> m"
  shows "chunkText (para n @ [NL, NL] @ para n) m = [para n @ [NL, NL] @ para n]"
proof -
  have "paragraphs (para n @ NL # NL # para n) = para n # paragraphs (para n)"
    using assms(1) by (intro paragraphs_sep para_facts) (simp add: para_facts letterA_facts)
  then have p: "paragraphs (para n @ [NL, NL] @ para n) = [para n, para n]"
    by (simp add: paragraphs_no_NL para_facts)
  have t: "trim (para n @ [NL, NL] @ para n) = para n @ [NL, NL] @ para n"
    using assms(1) by (intro trim_id) (auto simp: para_facts para_def letterA_facts)
  show ?thesis
    unfolding chunkText_def p using assms t by (simp add: para_facts)
qed

text \<open>
  What the loop does guarantee: a chunk is the trimmed text of one paragraph, or it is at
  most two code units longer than the limit. The test of the loop adds the lengths of the
  chunk and of the paragraph, not that of the separator between them.
\<close>

lemma pack_bound:
  assumes "length cur \<le> m + 2 \<or> cur \<in> S" and "set ps \<subseteq> S" and "c \<in> set (pack m cur ps)"
  shows "length c \<le> m + 2 \<or> c \<in> trim ` S"
  using assms
proof (induction ps arbitrary: cur)
  case Nil
  then have c: "c = trim cur" by (simp split: if_splits)
  from Nil(1) show ?case
  proof
    assume "length cur \<le> m + 2"
    then show ?thesis using length_trim_le [of cur] c by simp
  next
    assume "cur \<in> S"
    then show ?thesis using c by blast
  qed
next
  case (Cons p ps)
  show ?case
  proof (cases "length cur + length p > m \<and> cur \<noteq> []")
    case True
    then have "c = trim cur \<or> c \<in> set (pack m p ps)"
      using Cons.prems(3) by auto
    then show ?thesis
    proof
      assume c: "c = trim cur"
      from Cons.prems(1) show ?thesis
      proof
        assume "length cur \<le> m + 2"
        then show ?thesis using length_trim_le [of cur] c by simp
      next
        assume "cur \<in> S"
        then show ?thesis using c by blast
      qed
    next
      assume "c \<in> set (pack m p ps)"
      then show ?thesis using Cons.IH [of p] Cons.prems(2) by simp
    qed
  next
    case False
    let ?new = "cur @ (if cur \<noteq> [] then [NL, NL] else []) @ p"
    have c: "c \<in> set (pack m ?new ps)"
      using False Cons.prems(3) by auto
    have "length ?new \<le> m + 2 \<or> ?new \<in> S"
      using False Cons.prems(2) by (cases "cur = []") auto
    then show ?thesis using Cons.IH [of ?new] Cons.prems(2) c by simp
  qed
qed

lemma chunkText_bound:
  assumes "c \<in> set (chunkText text m)"
  shows "length c \<le> m + 2 \<or> (\<exists>p\<in>set (paragraphs text). c = trim p)"
proof -
  have "length c \<le> m + 2 \<or> c \<in> trim ` set (paragraphs text)"
    using assms unfolding chunkText_def
    by (intro pack_bound [of "[]" m "set (paragraphs text)" "paragraphs text"]) simp_all
  then show ?thesis by blast
qed

text \<open>
  C7: the chunks are packed greedily, and a chunk assembled from several paragraphs, each
  within the limit, does not exceed the limit. The second part fails on the code: two
  paragraphs of 250 letters, separated by a blank line, are both within the limit of 500
  and are packed into one chunk of 502 code units.
\<close>

theorem chunk_of_two_paragraphs_over_limit:
  "paragraphs (para 250 @ [NL, NL] @ para 250) = [para 250, para 250]
   \<and> length (para 250) \<le> defaultMaxChunkSize
   \<and> chunkText (para 250 @ [NL, NL] @ para 250) defaultMaxChunkSize = [para 250 @ [NL, NL] @ para 250]
   \<and> length (para 250 @ [NL, NL] @ para 250) = 502
   \<and> \<not> length (para 250 @ [NL, NL] @ para 250) \<le> defaultMaxChunkSize"
proof -
  have "paragraphs (para 250 @ NL # NL # para 250) = para 250 # paragraphs (para 250)"
    by (intro paragraphs_sep para_facts) (simp add: para_facts letterA_facts)
  then have 1: "paragraphs (para 250 @ [NL, NL] @ para 250) = [para 250, para 250]"
    by (simp add: paragraphs_no_NL para_facts)
  have 2: "chunkText (para 250 @ [NL, NL] @ para 250) defaultMaxChunkSize = [para 250 @ [NL, NL] @ para 250]"
    unfolding defaultMaxChunkSize_def by (rule chunkText_two_paragraphs) simp_all
  show ?thesis using 1 2 by (simp add: para_facts defaultMaxChunkSize_def)
qed

theorem chunk_of_two_paragraphs_over_limit_witness:
  "list_all (\<lambda>p. length p \<le> defaultMaxChunkSize) (paragraphs (para 250 @ [NL, NL] @ para 250))
   \<and> \<not> list_all (\<lambda>c. length c \<le> defaultMaxChunkSize)
        (chunkText (para 250 @ [NL, NL] @ para 250) defaultMaxChunkSize)"
  using chunk_of_two_paragraphs_over_limit by simp

section \<open>Identity and indexing\<close>

lemma id_tea: "generateId (js ''dev'') (js ''manual'') (js ''tea'') = js ''dev:manual:1c010''"
  by (simp add: generateId_def js_def hashText_def hashStep_def toString16_def hexDigit_def hexNat.simps
          isHighSurrogate_def isLowSurrogate_def)

lemma id_batching:
  "generateId (js ''dev'') (js ''capture'') (js ''I decided to use batching'') = js ''dev:capture:1bc6896b''"
  by (simp add: generateId_def js_def hashText_def hashStep_def toString16_def hexDigit_def hexNat.simps
          isHighSurrogate_def isLowSurrogate_def)

lemma id_negative:
  "generateId (js ''dev'') (js ''capture'') (js ''Actually, I decided I prefer tea'') = js ''dev:capture:-2424457f''"
  by (simp add: generateId_def js_def hashText_def hashStep_def toString16_def hexDigit_def hexNat.simps
          isHighSurrogate_def isLowSurrogate_def)

lemma chunk_tea: "chunkText (js ''tea'') defaultMaxChunkSize = [js ''tea'']"
  by (simp add: chunkText_def js_def NL_def trim_def isWhiteSpace_def)

lemma js_nonempty: "js (c # cs) \<noteq> []"
  by (simp add: js_def)

lemma testEnv_total: "\<forall>t. \<exists>e. AI_run testEnv t = Inr e"
  by (simp add: testEnv_def)

lemma fileEnv_total: "\<forall>t. \<exists>e. AI_run (fileEnv text) t = Inr e"
  by (simp add: testEnv_def fileEnv_def)

lemma indexVectors_ids:
  "indexVectors env body i chunks = Inr vs \<Longrightarrow>
     map v_id vs = map (generateId (strOf (i_agent body)) (orStr (i_source_file body) (js ''manual''))) chunks
     \<and> map (\<lambda>v. m_raw_text (v_metadata v)) vs = chunks"
proof (induction chunks arbitrary: i vs)
  case Nil
  then show ?case by simp
next
  case (Cons c cs)
  then show ?case by (auto split: sum.splits)
qed

lemma fileVectors_ids:
  "fileVectors env body i chunks = Inr vs \<Longrightarrow>
     map v_id vs = map (generateId (strOf (f_agent body)) (strOf (f_file body))) chunks
     \<and> map (\<lambda>v. m_raw_text (v_metadata v)) vs = chunks"
proof (induction chunks arbitrary: i vs)
  case Nil
  then show ?case by simp
next
  case (Cons c cs)
  then show ?case by (auto split: sum.splits)
qed

lemma indexVectors_total:
  "\<forall>t. \<exists>e. AI_run env t = Inr e \<Longrightarrow> \<exists>vs. indexVectors env body i chunks = Inr vs"
proof (induction chunks arbitrary: i)
  case Nil
  then show ?case by simp
next
  case (Cons c cs)
  from Cons.prems obtain e where e: "AI_run env c = Inr e" by blast
  from Cons.IH [OF Cons.prems] obtain vs where "indexVectors env body (Suc i) cs = Inr vs" by blast
  then show ?case by (simp add: e)
qed

lemma fileVectors_total:
  "\<forall>t. \<exists>e. AI_run env t = Inr e \<Longrightarrow> \<exists>vs. fileVectors env body i chunks = Inr vs"
proof (induction chunks arbitrary: i)
  case Nil
  then show ?case by simp
next
  case (Cons c cs)
  from Cons.prems obtain e where e: "AI_run env c = Inr e" by blast
  from Cons.IH [OF Cons.prems] obtain vs where "fileVectors env body (Suc i) cs = Inr vs" by blast
  then show ?case by (simp add: e)
qed

lemma keys_foldl_update:
  "set (map v_id batch) \<subseteq> set (map fst al) \<Longrightarrow>
     map fst (foldl (\<lambda>al v. AList.update (v_id v) v al) al batch) = map fst al"
proof (induction batch arbitrary: al)
  case Nil
  then show ?case by simp
next
  case (Cons v vs)
  have k: "map fst (AList.update (v_id v) v al) = map fst al"
    using Cons.prems by (simp add: update_keys)
  show ?case using Cons.prems Cons.IH [of "AList.update (v_id v) v al"] k by simp
qed

lemma keys_foldl_update_mono:
  "set (map fst al) \<subseteq> set (map fst (foldl (\<lambda>al v. AList.update (v_id v) v al) al batch))"
proof (induction batch arbitrary: al)
  case Nil
  then show ?case by simp
next
  case (Cons v vs)
  have "set (map fst al) \<subseteq> set (map fst (AList.update (v_id v) v al))"
    by (auto simp: update_keys)
  then show ?case using Cons.IH [of "AList.update (v_id v) v al"] by auto
qed

lemma keys_foldl_update_covers:
  "set (map v_id batch) \<subseteq> set (map fst (foldl (\<lambda>al v. AList.update (v_id v) v al) al batch))"
proof (induction batch arbitrary: al)
  case Nil
  then show ?case by simp
next
  case (Cons v vs)
  have "v_id v \<in> set (map fst (AList.update (v_id v) v al))"
    by (auto simp: update_keys)
  then have "v_id v \<in> set (map fst (foldl (\<lambda>al v. AList.update (v_id v) v al) (AList.update (v_id v) v al) vs))"
    using keys_foldl_update_mono [of "AList.update (v_id v) v al" vs] by blast
  then show ?case using Cons.IH [of "AList.update (v_id v) v al"] by simp
qed

lemma distinct_foldl_update:
  "distinct (map fst al) \<Longrightarrow> distinct (map fst (foldl (\<lambda>al v. AList.update (v_id v) v al) al batch))"
  by (induction batch arbitrary: al) (simp_all add: distinct_update)

lemma index_testEnv:
  assumes "text \<noteq> []"
  shows "\<exists>vs. indexHandler testEnv (sampleIndex text) st =
            (IndexResponse (length vs) (map v_id vs),
             \<lparr>records = foldl (\<lambda>al v. AList.update (v_id v) v al) (records st) vs,
              upsertCalls = upsertCalls st @ [vs]\<rparr>)
          \<and> map (\<lambda>v. m_raw_text (v_metadata v)) vs = chunkText text defaultMaxChunkSize"
proof -
  obtain vs where vs: "indexVectors testEnv (sampleIndex text) 0 (chunkText text defaultMaxChunkSize) = Inr vs"
    using indexVectors_total [OF testEnv_total] by blast
  have u: "VECTORIZE_upsert testEnv = storeUpsert"
    by (simp add: testEnv_def)
  have t: "truthy (i_agent (sampleIndex text))" "truthy (i_text (sampleIndex text))"
      "strOf (i_text (sampleIndex text)) = text"
    using assms by (simp_all add: sampleIndex_def truthy_def strOf_def js_nonempty)
  have "indexHandler testEnv (sampleIndex text) st =
            (IndexResponse (length vs) (map v_id vs),
             \<lparr>records = foldl (\<lambda>al v. AList.update (v_id v) v al) (records st) vs,
              upsertCalls = upsertCalls st @ [vs]\<rparr>)"
    by (simp add: indexHandler_def t vs u storeUpsert_def)
  moreover have "map (\<lambda>v. m_raw_text (v_metadata v)) vs = chunkText text defaultMaxChunkSize"
    using indexVectors_ids [OF vs] by simp
  ultimately show ?thesis by blast
qed

text \<open>
  C5: the ids of an \<open>/index\<close> request are a function of the agent, the source and the
  text alone (\<open>generateId\<close> on the chunks of the text), whatever the embedding, the clock,
  the type, the chunk index and the state of the store. Indexing the same agent, source and
  text a second time answers with the same ids and leaves the keys of the store as they
  were after the first time, each id held once.
\<close>

theorem index_idempotent:
  assumes up: "VECTORIZE_upsert env = storeUpsert" "VECTORIZE_upsert env' = storeUpsert"
    and same: "i_agent body' = i_agent body" "i_source_file body' = i_source_file body"
      "i_text body' = i_text body"
    and inv: "distinct (map fst (records st))"
    and first: "indexHandler env body st = (IndexResponse n ids, st1)"
    and second: "indexHandler env' body' st1 = (IndexResponse n' ids', st2)"
  shows "ids' = ids
         \<and> ids = map (generateId (strOf (i_agent body)) (orStr (i_source_file body) (js ''manual'')))
                    (chunkText (strOf (i_text body)) defaultMaxChunkSize)
         \<and> map fst (records st2) = map fst (records st1)
         \<and> set ids \<subseteq> set (map fst (records st2))
         \<and> distinct (map fst (records st2))"
proof -
  let ?cs = "chunkText (strOf (i_text body)) defaultMaxChunkSize"
  let ?g = "generateId (strOf (i_agent body)) (orStr (i_source_file body) (js ''manual''))"
  from first obtain vs where vs: "indexVectors env body 0 ?cs = Inr vs"
    and ids: "ids = map v_id vs"
    and st1: "records st1 = foldl (\<lambda>al v. AList.update (v_id v) v al) (records st) vs"
    by (auto simp: indexHandler_def up storeUpsert_def split: if_splits sum.splits)
  from second obtain ws where ws: "indexVectors env' body' 0 ?cs = Inr ws"
    and ids': "ids' = map v_id ws"
    and st2: "records st2 = foldl (\<lambda>al v. AList.update (v_id v) v al) (records st1) ws"
    by (auto simp: indexHandler_def up storeUpsert_def same split: if_splits sum.splits)
  have a: "ids = map ?g ?cs"
    using indexVectors_ids [OF vs] ids by simp
  have b: "ids' = map ?g ?cs"
    using indexVectors_ids [OF ws] ids' same by simp
  have c: "set ids \<subseteq> set (map fst (records st1))"
    unfolding st1 ids by (rule keys_foldl_update_covers)
  have d: "map fst (records st2) = map fst (records st1)"
    unfolding st2 using c a b ids' by (intro keys_foldl_update) simp
  have e: "distinct (map fst (records st1))"
    unfolding st1 using inv by (rule distinct_foldl_update)
  show ?thesis using a b c d e by simp
qed

theorem index_idempotent_witness:
  "fst (indexHandler testEnv (sampleIndex (js ''tea'')) emptyStore)
     = IndexResponse 1 [js ''dev:manual:1c010'']
   \<and> fst (indexHandler testEnv (sampleIndex (js ''tea''))
          (snd (indexHandler testEnv (sampleIndex (js ''tea'')) emptyStore)))
     = IndexResponse 1 [js ''dev:manual:1c010'']
   \<and> map fst (records (snd (indexHandler testEnv (sampleIndex (js ''tea''))
          (snd (indexHandler testEnv (sampleIndex (js ''tea'')) emptyStore)))))
     = [js ''dev:manual:1c010'']"
proof -
  let ?b = "sampleIndex (js ''tea'')"
  have ne: "js ''tea'' \<noteq> []" by (simp add: js_def)
  have u: "VECTORIZE_upsert testEnv = storeUpsert" by (simp add: testEnv_def)
  have inv: "distinct (map fst (records emptyStore))" by (simp add: emptyStore_def)
  obtain vs st1 where r1: "indexHandler testEnv ?b emptyStore = (IndexResponse (length vs) (map v_id vs), st1)"
    and st1: "st1 = \<lparr>records = foldl (\<lambda>al v. AList.update (v_id v) v al) (records emptyStore) vs,
              upsertCalls = upsertCalls emptyStore @ [vs]\<rparr>"
    using index_testEnv [OF ne, of emptyStore] by blast
  obtain ws st2 where r2: "indexHandler testEnv ?b st1 = (IndexResponse (length ws) (map v_id ws), st2)"
    and st2: "st2 = \<lparr>records = foldl (\<lambda>al v. AList.update (v_id v) v al) (records st1) ws,
              upsertCalls = upsertCalls st1 @ [ws]\<rparr>"
    using index_testEnv [OF ne, of st1] by blast
  note t = index_idempotent [OF u u refl refl refl inv r1 r2]
  have g: "map v_id vs = [js ''dev:manual:1c010'']"
    using t by (simp add: sampleIndex_def strOf_def orStr_def truthy_def chunk_tea id_tea)
  then obtain v where v: "vs = [v]" "v_id v = js ''dev:manual:1c010''"
    by (cases vs) auto
  have k1: "map fst (records st1) = [js ''dev:manual:1c010'']"
    by (simp add: st1 v emptyStore_def)
  have w: "map v_id ws = map v_id vs" using t by simp
  then have lw: "length ws = 1" using v by (metis length_map length_Cons list.size(3) One_nat_def)
  have k2: "map fst (records st2) = [js ''dev:manual:1c010'']"
    using t k1 by simp
  show ?thesis
    by (simp add: r1 r2 k2 w g lw v)
qed

text \<open>
  The batch loop of \<open>/index-file\<close> never passes more than 100 vectors to one upsert call,
  whatever the file.
\<close>

lemma upsertBatches_bound:
  assumes "VECTORIZE_upsert env = storeUpsert"
    and "\<forall>b\<in>set (upsertCalls st). length b \<le> 100"
  shows "\<forall>b\<in>set (upsertCalls (snd (upsertBatches env vectors i tot st))). length b \<le> 100"
  using assms
proof (induction env vectors i tot st rule: upsertBatches.induct)
  case (1 env vectors i totalInserted st)
  show ?case
  proof (cases "i < length vectors")
    case True
    let ?st' = "\<lparr>records = foldl (\<lambda>al v. AList.update (v_id v) v al) (records st) (take 100 (drop i vectors)),
                  upsertCalls = upsertCalls st @ [take 100 (drop i vectors)]\<rparr>"
    have u: "VECTORIZE_upsert env (take 100 (drop i vectors)) st = Inr ?st'"
      by (simp add: "1.prems"(1) storeUpsert_def)
    have b: "\<forall>b\<in>set (upsertCalls ?st'). length b \<le> 100"
      using "1.prems"(2) by auto
    have "\<forall>b\<in>set (upsertCalls (snd (upsertBatches env vectors (i + 100)
              (totalInserted + length (take 100 (drop i vectors))) ?st'))). length b \<le> 100"
      using "1.IH" [OF True refl u "1.prems"(1) b] .
    then show ?thesis
      using True u by (subst upsertBatches.simps) (simp add: Let_def)
  next
    case False
    then show ?thesis using "1.prems"(2) by (subst upsertBatches.simps) simp
  qed
qed

lemma index_file_batches_bounded:
  assumes "VECTORIZE_upsert env = storeUpsert"
    and "\<forall>b\<in>set (upsertCalls st). length b \<le> 100"
  shows "\<forall>b\<in>set (upsertCalls (snd (indexFileHandler env body st))). length b \<le> 100"
proof -
  have "\<forall>b\<in>set (upsertCalls (snd (upsertBatches env vectors 0 0 st))). length b \<le> 100" for vectors
    using assms by (rule upsertBatches_bound)
  then have "\<forall>b\<in>set (upsertCalls st'). length b \<le> 100"
    if "upsertBatches env vectors 0 0 st = (r, st')" for vectors r st'
    using that by (metis snd_conv)
  then show ?thesis
    using assms(2)
    by (auto simp: indexFileHandler_def split: sum.splits option.splits prod.splits)
qed

text \<open>
  C9: records are written one per upsert call or in batches of at most 100, also when
  \<open>/index\<close> produces more than 100 chunks. On the code, a text of 101 paragraphs of 251
  letters gives 101 chunks, and the handler of \<open>/index\<close> passes all 101 vectors to the
  store in one upsert call.
\<close>

theorem index_single_upsert_over_100:
  "map length (upsertCalls (snd (indexHandler testEnv (sampleIndex (joined 101 251)) emptyStore))) = [101]"
proof -
  have ne: "joined 101 251 \<noteq> []"
    by (simp add: joined_def para_def numeral_eq_Suc)
  obtain vs where h: "indexHandler testEnv (sampleIndex (joined 101 251)) emptyStore =
            (IndexResponse (length vs) (map v_id vs),
             \<lparr>records = foldl (\<lambda>al v. AList.update (v_id v) v al) (records emptyStore) vs,
              upsertCalls = upsertCalls emptyStore @ [vs]\<rparr>)"
    and r: "map (\<lambda>v. m_raw_text (v_metadata v)) vs = chunkText (joined 101 251) defaultMaxChunkSize"
    using index_testEnv [OF ne] by blast
  have "chunkText (joined (Suc 100) 251) 500 = replicate (Suc 100) (para 251)"
    by (rule chunkText_joined) simp_all
  then have "length (chunkText (joined 101 251) defaultMaxChunkSize) = 101"
    by (simp add: defaultMaxChunkSize_def)
  then have "length vs = 101"
    using r by (metis length_map)
  then show ?thesis
    unfolding h by (simp add: emptyStore_def)
qed

theorem index_single_upsert_over_100_witness:
  "\<not> list_all (\<lambda>n. n \<le> 100)
      (map length (upsertCalls (snd (indexHandler testEnv (sampleIndex (joined 101 251)) emptyStore))))"
  using index_single_upsert_over_100 by simp

text \<open>
  C6: the stored raw text is capped on every write path. \<open>/capture\<close> keeps the first 1000
  code units; \<open>/index\<close> and \<open>/index-file\<close> store the chunk as it is, so a paragraph of
  1001 letters is stored with all its 1001 code units.
\<close>

theorem index_raw_text_uncapped:
  "rawLengths (snd (indexHandler testEnv (sampleIndex (para 1001)) emptyStore)) = [1001]
   \<and> rawLengths (snd (captureHandler testEnv (sampleCapture (para 1001) (Some (js ''decision''))) emptyStore)) = [1000]"
proof -
  have ne: "para 1001 \<noteq> []"
    by (simp add: para_facts)
  obtain vs where h: "indexHandler testEnv (sampleIndex (para 1001)) emptyStore =
            (IndexResponse (length vs) (map v_id vs),
             \<lparr>records = foldl (\<lambda>al v. AList.update (v_id v) v al) (records emptyStore) vs,
              upsertCalls = upsertCalls emptyStore @ [vs]\<rparr>)"
    and r: "map (\<lambda>v. m_raw_text (v_metadata v)) vs = chunkText (para 1001) defaultMaxChunkSize"
    using index_testEnv [OF ne] by blast
  have "chunkText (para 1001) defaultMaxChunkSize = [para 1001]"
    unfolding para_def by (rule chunkText_letters) simp
  with r obtain v where v: "vs = [v]" "m_raw_text (v_metadata v) = para 1001"
    by (cases vs) auto
  have 1: "rawLengths (snd (indexHandler testEnv (sampleIndex (para 1001)) emptyStore)) = [1001]"
    unfolding h by (simp add: v rawLengths_def emptyStore_def para_facts)
  have 2: "rawLengths (snd (captureHandler testEnv (sampleCapture (para 1001) (Some (js ''decision''))) emptyStore)) = [1000]"
    by (simp add: captureHandler_def captureMemoryType_def captureVector_def sampleCapture_def
          truthy_def strOf_def js_def testEnv_def storeUpsert_def emptyStore_def rawLengths_def
          para_facts)
  show ?thesis using 1 2 by simp
qed

theorem index_raw_text_uncapped_witness:
  "\<not> list_all (\<lambda>n. n \<le> 1000)
      (rawLengths (snd (indexHandler testEnv (sampleIndex (para 1001)) emptyStore)))"
  using index_raw_text_uncapped by simp

lemma index_file_raw_text_uncapped:
  "rawLengths (snd (indexFileHandler (fileEnv (para 1001)) sampleFile emptyStore)) = [1001]"
proof -
  have c: "chunkText (para 1001) defaultMaxChunkSize = [para 1001]"
    unfolding para_def by (rule chunkText_letters) simp
  have t: "truthy (f_agent sampleFile)" "truthy (f_file sampleFile)" "strOf (f_agent sampleFile) = js ''dev''"
    by (simp_all add: sampleFile_def truthy_def strOf_def js_def)
  have r: "R2_DEV (fileEnv (para 1001)) (strOf (f_file sampleFile)) = Inr (Some (para 1001))"
    by (simp add: fileEnv_def)
  have a: "AI_run (fileEnv (para 1001)) x = Inr [1]" for x
    by (simp add: fileEnv_def testEnv_def)
  have u: "VECTORIZE_upsert (fileEnv (para 1001)) = storeUpsert"
    by (simp add: fileEnv_def testEnv_def)
  show ?thesis
    by (simp add: indexFileHandler_def t r c a u storeUpsert_def rawLengths_def emptyStore_def
          para_facts upsertBatches.simps)
qed

section \<open>Capture\<close>

text \<open>The classifier of the plugin takes the first category that matches, in its order.\<close>

lemma detectCategory_precedence:
  "(detectCategory t = Correction \<longleftrightarrow> regexTestI correctionWords (toLowerCase t))
   \<and> (detectCategory t = Preference \<longleftrightarrow>
        \<not> regexTestI correctionWords (toLowerCase t) \<and> regexTestI preferenceWords (toLowerCase t))
   \<and> (detectCategory t = Decision \<longleftrightarrow>
        \<not> regexTestI correctionWords (toLowerCase t) \<and> \<not> regexTestI preferenceWords (toLowerCase t)
        \<and> regexTestI decisionWords (toLowerCase t))
   \<and> (detectCategory t = Learning \<longleftrightarrow>
        \<not> regexTestI correctionWords (toLowerCase t) \<and> \<not> regexTestI preferenceWords (toLowerCase t)
        \<and> \<not> regexTestI decisionWords (toLowerCase t) \<and> regexTestI learningWords (toLowerCase t))"
  by (simp add: detectCategory_def Let_def)

lemma capture_decided:
  "captureMemoryType None (js ''I decided to use batching'') = js ''decision''"
  by (simp add: captureMemoryType_def js_def toLowerCase_def lowerChar_def truthy_def)

lemma capture_step:
  assumes "captureMemoryType cl content = t" and "t \<noteq> js ''context''" and "content \<noteq> []"
  shows "captureHandler (rankedEnv ms) (sampleCapture content cl) st =
           (Captured t (generateId (js ''dev'') (js ''capture'') content),
            \<lparr>records = AList.update (generateId (js ''dev'') (js ''capture'') content)
                         (captureVector (rankedEnv ms) (sampleCapture content cl) [1]) (records st),
             upsertCalls = upsertCalls st @ [[captureVector (rankedEnv ms) (sampleCapture content cl) [1]]]\<rparr>)"
proof -
  have a: "truthy (c_agent (sampleCapture content cl))" "truthy (c_content (sampleCapture content cl))"
    "strOf (c_content (sampleCapture content cl)) = content"
    "strOf (c_agent (sampleCapture content cl)) = js ''dev''"
    "c_classification (sampleCapture content cl) = cl"
    using assms(3) by (simp_all add: sampleCapture_def truthy_def strOf_def js_nonempty)
  have u: "VECTORIZE_upsert (rankedEnv ms) = storeUpsert"
    by (simp add: rankedEnv_def testEnv_def)
  have i: "v_id (captureVector (rankedEnv ms) (sampleCapture content cl) [1])
             = generateId (js ''dev'') (js ''capture'') content"
    by (simp add: captureVector_def a)
  show ?thesis
    using assms(1,2) by (simp add: captureHandler_def a u rankedEnv_run storeUpsert_def i)
qed

lemma capture_ignores_query:
  "captureHandler (env\<lparr>VECTORIZE_query := q\<rparr>) body st = captureHandler env body st"
proof -
  have "captureVector (env\<lparr>VECTORIZE_query := q\<rparr>) body e = captureVector env body e" for e
    by (simp add: captureVector_def)
  then show ?thesis
    by (simp add: captureHandler_def split: sum.splits)
qed

text \<open>
  C1: the category follows the precedence correction, preference, decision, learning,
  context. \<open>detectCategory\<close> of the plugin does; the heuristics of the worker's \<open>/capture\<close>
  test decision first and preference last, so a turn with correction, decision and
  preference language is a decision there, and one with learning and preference language
  is a learning.
\<close>

theorem worker_heuristics_order_differs:
  "captureMemoryType None (js ''Actually, I decided I prefer tea'') = js ''decision''
   \<and> detectCategory (js ''Actually, I decided I prefer tea'') = Correction
   \<and> captureMemoryType None (js ''I learned that I prefer tea'') = js ''learning''
   \<and> detectCategory (js ''I learned that I prefer tea'') = Preference"
proof -
  have 1: "captureMemoryType None (js ''Actually, I decided I prefer tea'') = js ''decision''"
    by (simp add: captureMemoryType_def js_def toLowerCase_def lowerChar_def truthy_def)
  have 2: "detectCategory (js ''Actually, I decided I prefer tea'') = Correction"
    by (simp add: detectCategory_def regexTestI_def correctionWords_def js_def toLowerCase_def
          lowerChar_def)
  have 3: "captureMemoryType None (js ''I learned that I prefer tea'') = js ''learning''"
    by (simp add: captureMemoryType_def js_def toLowerCase_def lowerChar_def truthy_def)
  have 4: "detectCategory (js ''I learned that I prefer tea'') = Preference"
    by (simp add: detectCategory_def regexTestI_def correctionWords_def preferenceWords_def
          js_def toLowerCase_def lowerChar_def)
  show ?thesis using 1 2 3 4 by blast
qed

theorem worker_heuristics_order_differs_witness:
  "captureMemoryType None (js ''Actually, I decided I prefer tea'')
     \<noteq> typeName (detectCategory (js ''Actually, I decided I prefer tea''))
   \<and> captureMemoryType None (js ''I learned that I prefer tea'')
     \<noteq> typeName (detectCategory (js ''I learned that I prefer tea''))"
  using worker_heuristics_order_differs by (simp add: typeName_def js_def)

text \<open>
  C2: a capture first asks the store for near-duplicates and a hit at 0.95 or above
  suppresses the write. The handler of \<open>/capture\<close> never queries the store: with a store
  that would answer every query with a match of score 1, capturing the same sentence twice
  answers \<open>captured\<close> both times, under the same id, and upserts twice.
\<close>

theorem capture_twice_stores_twice:
  "fst (captureHandler (rankedEnv [hit 1]) (sampleCapture (js ''I decided to use batching'') None) emptyStore)
     = Captured (js ''decision'') (js ''dev:capture:1bc6896b'')
   \<and> fst (captureHandler (rankedEnv [hit 1]) (sampleCapture (js ''I decided to use batching'') None)
          (snd (captureHandler (rankedEnv [hit 1]) (sampleCapture (js ''I decided to use batching'') None) emptyStore)))
     = Captured (js ''decision'') (js ''dev:capture:1bc6896b'')
   \<and> length (upsertCalls (snd (captureHandler (rankedEnv [hit 1]) (sampleCapture (js ''I decided to use batching'') None)
          (snd (captureHandler (rankedEnv [hit 1]) (sampleCapture (js ''I decided to use batching'') None) emptyStore)))))
     = 2"
proof -
  have c: "js ''decision'' \<noteq> js ''context''" "js ''I decided to use batching'' \<noteq> []"
    by (simp_all add: js_def)
  note step = capture_step [OF capture_decided c, of "[hit 1]"]
  show ?thesis
    by (simp add: step id_batching emptyStore_def)
qed

theorem capture_twice_stores_twice_witness:
  "fst (captureHandler (rankedEnv [hit 1]) (sampleCapture (js ''I decided to use batching'') None)
          (snd (captureHandler (rankedEnv [hit 1]) (sampleCapture (js ''I decided to use batching'') None) emptyStore)))
     \<noteq> NotCaptured"
  using capture_twice_stores_twice by simp

text \<open>
  C4: the stored type is one of the six categories. A \<open>/capture\<close> request with the
  classification \<open>banana\<close> is stored with the type \<open>banana\<close>.
\<close>

theorem capture_stores_free_text_type:
  "storedTypes (snd (captureHandler testEnv (sampleCapture (js ''hello there'') (Some (js ''banana''))) emptyStore))
     = [js ''banana'']
   \<and> \<not> isMemoryType (js ''banana'')
   \<and> fst (captureHandler testEnv (sampleCapture (js ''hello there'') (Some (js ''banana''))) emptyStore)
     = Captured (js ''banana'') (js ''dev:capture:6ac23d96'')"
proof -
  have t: "captureMemoryType (Some (js ''banana'')) (js ''hello there'') = js ''banana''"
    by (simp add: captureMemoryType_def truthy_def strOf_def js_def)
  have c: "js ''banana'' \<noteq> js ''context''" "js ''hello there'' \<noteq> []"
    by (simp_all add: js_def)
  have e: "rankedEnv [] = testEnv"
    by (simp add: rankedEnv_def testEnv_def)
  have i: "generateId (js ''dev'') (js ''capture'') (js ''hello there'') = js ''dev:capture:6ac23d96''"
    by (simp add: generateId_def js_def hashText_def hashStep_def toString16_def hexDigit_def hexNat.simps
          isHighSurrogate_def isLowSurrogate_def)
  note step = capture_step [OF t c, of "[]" emptyStore, unfolded e]
  have 1: "storedTypes (snd (captureHandler testEnv (sampleCapture (js ''hello there'') (Some (js ''banana''))) emptyStore))
     = [js ''banana'']"
    unfolding step
    by (simp add: storedTypes_def emptyStore_def captureVector_def sampleCapture_def strOf_def t)
  have 2: "\<not> isMemoryType (js ''banana'')"
    by (simp add: isMemoryType_def typeName_def js_def)
  have 3: "fst (captureHandler testEnv (sampleCapture (js ''hello there'') (Some (js ''banana''))) emptyStore)
     = Captured (js ''banana'') (js ''dev:capture:6ac23d96'')"
    unfolding step by (simp add: i)
  show ?thesis using 1 2 3 by blast
qed

theorem capture_stores_free_text_type_witness:
  "\<not> list_all isMemoryType
      (storedTypes (snd (captureHandler testEnv (sampleCapture (js ''hello there'') (Some (js ''banana''))) emptyStore)))"
  using capture_stores_free_text_type by simp

end
